theory Spec2Isabelle
  imports Main "HOL-Library.Word"
begin

section \<open>Bytes and the helpers of the SSE decoder\<close>

text \<open>
  The decoder of \<^verbatim>\<open>src/lib/patch-langgraph-client.ts\<close> works on \<^verbatim>\<open>Uint8Array\<close>s.
  A \<^verbatim>\<open>Uint8Array\<close> is a list of 8-bit words; the named character codes are the
  constants of the source.
\<close>

type_synonym byte = "8 word"
type_synonym bytes = "byte list"

definition CR :: byte where "CR = 13"
definition LF :: byte where "LF = 10"
definition NULL :: byte where "NULL = 0"
definition COLON :: byte where "COLON = 58"
definition SPACE :: byte where "SPACE = 32"
definition TRAILING_NEWLINE :: "byte list" where "TRAILING_NEWLINE = [CR, LF]"

text \<open>
  \<^verbatim>\<open>joinArrays\<close> allocates an array of the total length and copies every part at its
  offset: the parts end up one after the other, with nothing between them.
\<close>

definition joinArrays :: "bytes list \<Rightarrow> bytes" where
  "joinArrays data = foldl (\<lambda>merged c. merged @ c) [] data"

text \<open>\<^verbatim>\<open>a.subarray(b, e)\<close> for \<open>0 \<le> b\<close> and \<open>0 \<le> e\<close>: the elements from \<open>b\<close> up to, not
  including, \<open>e\<close>.\<close>

definition subarray :: "bytes \<Rightarrow> nat \<Rightarrow> nat \<Rightarrow> bytes" where
  "subarray a b e = take (e - b) (drop b a)"

section \<open>BytesLineDecoder\<close>

text \<open>
  The accumulator of the \<^verbatim>\<open>reduce\<close> call in \<^verbatim>\<open>transform\<close>: the lines found so far and
  the index \<^verbatim>\<open>from\<close> where the line being scanned starts (\<open>frm\<close> here, since
  \<open>from\<close> is a keyword).
\<close>

record scan_acc =
  lines :: "bytes list"
  frm :: nat

text \<open>
  The callback of \<^verbatim>\<open>text.reduce\<close>, applied at index \<open>idx\<close>. Reading \<^verbatim>\<open>text[idx + 1]\<close>
  past the end gives \<^verbatim>\<open>undefined\<close>, which is not \<^verbatim>\<open>LF\<close>.
\<close>

definition reduce_step :: "bytes \<Rightarrow> scan_acc \<Rightarrow> nat \<Rightarrow> scan_acc" where
  "reduce_step text acc idx =
     (let cur = text ! idx; lastIdx = length text - 1 in
      if frm acc > idx then acc
      else
        let acc1 =
          (if cur = CR \<or> cur = LF
           then \<lparr>lines = lines acc @ [subarray text (frm acc) idx],
                 frm = (if cur = CR \<and> idx + 1 < length text \<and> text ! (idx + 1) = LF
                        then idx + 2 else idx + 1)\<rparr>
           else acc)
        in if idx = lastIdx \<and> frm acc1 \<le> lastIdx
           then acc1\<lparr>lines := lines acc1 @ [drop (frm acc1) text]\<rparr>
           else acc1)"

definition split_lines :: "bytes \<Rightarrow> bytes list" where
  "split_lines text =
     lines (foldl (reduce_step text) \<lparr>lines = [], frm = 0\<rparr> [0..<length text])"

text \<open>The two variables the transform stream closes over.\<close>

record line_state =
  buffer :: "bytes list"
  trailingCr :: bool

text \<open>\<^verbatim>\<open>start()\<close>.\<close>

definition line_start :: line_state where
  "line_start = \<lparr>buffer = [], trailingCr = False\<rparr>"

text \<open>
  \<^verbatim>\<open>transform(chunk, controller)\<close>, first part (up to \<^verbatim>\<open>if (!text.length) return\<close>):
  a carriage return held back from the previous chunk is put in front of this one, and a
  carriage return that ends this chunk is held back in turn. The result is the text to
  scan and the state.
\<close>

definition hold_trailing_cr :: "line_state \<Rightarrow> bytes \<Rightarrow> bytes \<times> line_state" where
  "hold_trailing_cr s chunk =
     (let (text, s1) =
            (if trailingCr s then (joinArrays [[CR], chunk], s\<lparr>trailingCr := False\<rparr>)
             else (chunk, s))
      in if length text > 0 \<and> last text = CR
         then (butlast text, s1\<lparr>trailingCr := True\<rparr>)
         else (text, s1))"

text \<open>
  Second part, for a non-empty \<open>text\<close>: the new state and the lines enqueued, in order.
  With a non-empty buffer and no line at all, \<^verbatim>\<open>buffer.push(lines[0])\<close> would push
  \<^verbatim>\<open>undefined\<close> and \<^verbatim>\<open>joinArrays\<close> would throw a TypeError on reading its length:
  that is the result \<open>None\<close>.
\<close>

definition emit_lines :: "line_state \<Rightarrow> bytes \<Rightarrow> (line_state \<times> bytes list) option" where
  "emit_lines s text =
     (let trailingNewline = (last text \<in> set TRAILING_NEWLINE);
          lns = split_lines text
      in if length lns = 1 \<and> \<not> trailingNewline
         then Some (s\<lparr>buffer := buffer s @ [lns ! 0]\<rparr>, [])
         else if buffer s \<noteq> [] \<and> lns = [] then None
         else
           let (lns, s1) =
                 (if buffer s \<noteq> []
                  then (lns[0 := joinArrays (buffer s @ [lns ! 0])], s\<lparr>buffer := []\<rparr>)
                  else (lns, s));
               (lns, s2) =
                 (if \<not> trailingNewline \<and> lns \<noteq> []
                  then (butlast lns, s1\<lparr>buffer := [last lns]\<rparr>)
                  else (lns, s1))
           in Some (s2, lns))"

text \<open>\<^verbatim>\<open>transform(chunk, controller)\<close> as a whole.\<close>

definition line_transform :: "line_state \<Rightarrow> bytes \<Rightarrow> (line_state \<times> bytes list) option" where
  "line_transform s chunk =
     (let (text, s') = hold_trailing_cr s chunk
      in if text = [] then Some (s', []) else emit_lines s' text)"

text \<open>\<^verbatim>\<open>flush(controller)\<close>: the lines enqueued when the stream closes.\<close>

definition line_flush :: "line_state \<Rightarrow> bytes list" where
  "line_flush s = (if buffer s \<noteq> [] then [joinArrays (buffer s)] else [])"

text \<open>Feeding the chunks one by one: the final state and every line enqueued.\<close>

fun line_feed :: "line_state \<Rightarrow> bytes list \<Rightarrow> (line_state \<times> bytes list) option" where
  "line_feed s [] = Some (s, [])"
| "line_feed s (chunk # chunks) =
     (case line_transform s chunk of
        None \<Rightarrow> None
      | Some (s', out) \<Rightarrow>
          (case line_feed s' chunks of
             None \<Rightarrow> None
           | Some (s'', out') \<Rightarrow> Some (s'', out @ out')))"

text \<open>A whole stream through a fresh \<^verbatim>\<open>BytesLineDecoder()\<close>: \<^verbatim>\<open>start\<close>, one
  \<^verbatim>\<open>transform\<close> per chunk, \<^verbatim>\<open>flush\<close>.\<close>

definition BytesLineDecoder :: "bytes list \<Rightarrow> bytes list option" where
  "BytesLineDecoder chunks =
     (case line_feed line_start chunks of
        None \<Rightarrow> None
      | Some (s, out) \<Rightarrow> Some (out @ line_flush s))"


section \<open>SafeSSEDecoder\<close>

text \<open>
  A JavaScript string is a list of UTF-16 code units; \<open>utf16\<close> writes the ASCII string
  literals of the source, and \<open>ascii\<close> the bytes of an ASCII text on the wire.
\<close>

type_synonym jsstring = "16 word list"

definition utf16 :: "string \<Rightarrow> jsstring" where
  "utf16 cs = map (\<lambda>c. of_nat (of_char c)) cs"

definition ascii :: "string \<Rightarrow> bytes" where
  "ascii cs = map (\<lambda>c. of_nat (of_char c)) cs"

text \<open>
  A parsed JSON value: \<^verbatim>\<open>null\<close>, which the decoder also produces by itself for an event
  without data, or any other value, which the decoder only passes on.
\<close>

datatype 'v json = JNull | JValue 'v

text \<open>
  The functions of the JavaScript platform that the decoder calls. They are not part of
  the repository and stay parameters:
  \<^item> \<open>decode\<close> is \<^verbatim>\<open>TextDecoder.prototype.decode\<close> (UTF-8, not fatal: it never throws);
  \<^item> \<open>JSON_parse\<close> is \<^verbatim>\<open>JSON.parse\<close>, with \<open>None\<close> for a thrown \<^verbatim>\<open>SyntaxError\<close>
    (\<^verbatim>\<open>JSON.parse\<close> never returns \<^verbatim>\<open>undefined\<close>);
  \<^item> \<open>parseInt\<close> is \<^verbatim>\<open>Number.parseInt(_, 10)\<close>, with \<open>None\<close> for \<^verbatim>\<open>NaN\<close>.
\<close>

record ('v, 'n) platform =
  decode :: "bytes \<Rightarrow> jsstring"
  JSON_parse :: "jsstring \<Rightarrow> 'v json option"
  parseInt :: "jsstring \<Rightarrow> 'n option"

text \<open>
  \<^verbatim>\<open>decodeArraysToJson\<close>: the parsed value, or \<open>None\<close> for the \<^verbatim>\<open>undefined\<close> that the
  \<^verbatim>\<open>catch\<close> block returns.
\<close>

definition decodeArraysToJson :: "('v, 'n) platform \<Rightarrow> bytes list \<Rightarrow> 'v json option" where
  "decodeArraysToJson P data =
     (case JSON_parse P (decode P (joinArrays data)) of
        Some v \<Rightarrow> Some v
      | None \<Rightarrow> None)"

text \<open>\<^verbatim>\<open>a.indexOf(x)\<close>: the first index of \<open>x\<close>, \<open>None\<close> for \<^verbatim>\<open>-1\<close>.\<close>

fun indexOf :: "bytes \<Rightarrow> byte \<Rightarrow> nat option" where
  "indexOf [] x = None"
| "indexOf (b # bs) x = (if b = x then Some 0 else map_option Suc (indexOf bs x))"

text \<open>The variables the transform stream closes over (\<^verbatim>\<open>decoder\<close> has no state).\<close>

record 'n sse_state =
  event :: jsstring
  data :: "bytes list"
  lastEventId :: jsstring
  retry :: "'n option"

definition sse_start :: "'n sse_state" where
  "sse_start = \<lparr>event = [], data = [], lastEventId = [], retry = None\<rparr>"

text \<open>The object enqueued at a dispatch; an \<open>sse_id\<close> of \<open>None\<close> is \<^verbatim>\<open>undefined\<close>.\<close>

record 'v sse =
  sse_id :: "jsstring option"
  sse_event :: jsstring
  sse_data :: "'v json"

text \<open>
  The body shared by the blank-line branch of \<^verbatim>\<open>transform\<close> and by \<^verbatim>\<open>flush\<close>:
  \<^verbatim>\<open>jsonData\<close> and the objects enqueued (none when \<^verbatim>\<open>jsonData\<close> is \<^verbatim>\<open>undefined\<close>).
\<close>

definition enqueue_sse :: "('v, 'n) platform \<Rightarrow> 'n sse_state \<Rightarrow> 'v sse list" where
  "enqueue_sse P s =
     (let jsonData = (if length (data s) \<noteq> 0 then decodeArraysToJson P (data s)
                      else Some JNull)
      in case jsonData of
           None \<Rightarrow> []
         | Some j \<Rightarrow>
             [\<lparr>sse_id = (if lastEventId s = [] then None else Some (lastEventId s)),
               sse_event = event s,
               sse_data = j\<rparr>])"

text \<open>
  Lines 115 to 120 of \<^verbatim>\<open>transform\<close>, for a non-empty line: \<open>None\<close> for a comment and for
  a line without colon, else the field name and the value, without one leading space.
  \<^verbatim>\<open>value[0]\<close> of an empty value is \<^verbatim>\<open>undefined\<close>, which is not \<^verbatim>\<open>SPACE\<close>.
\<close>

definition split_field :: "('v, 'n) platform \<Rightarrow> bytes \<Rightarrow> (jsstring \<times> bytes) option" where
  "split_field P chunk =
     (if chunk ! 0 = COLON then None
      else case indexOf chunk COLON of
             None \<Rightarrow> None
           | Some sepIdx \<Rightarrow>
               let fieldName = decode P (subarray chunk 0 sepIdx);
                   value = drop (sepIdx + 1) chunk;
                   value = (if value \<noteq> [] \<and> value ! 0 = SPACE then drop 1 value else value)
               in Some (fieldName, value))"

text \<open>\<^verbatim>\<open>transform(chunk, controller)\<close>: the new state and the objects enqueued.\<close>

definition sse_transform ::
  "('v, 'n) platform \<Rightarrow> 'n sse_state \<Rightarrow> bytes \<Rightarrow> 'n sse_state \<times> 'v sse list" where
  "sse_transform P s chunk =
     (if length chunk = 0
      then if event s = [] \<and> length (data s) = 0 \<and> lastEventId s = [] \<and> retry s = None
           then (s, [])
           else (s\<lparr>event := [], data := [], retry := None\<rparr>, enqueue_sse P s)
      else case split_field P chunk of
             None \<Rightarrow> (s, [])
           | Some (fieldName, value) \<Rightarrow>
               if fieldName = utf16 ''event'' then (s\<lparr>event := decode P value\<rparr>, [])
               else if fieldName = utf16 ''data'' then (s\<lparr>data := data s @ [value]\<rparr>, [])
               else if fieldName = utf16 ''id''
               then if indexOf value NULL = None
                    then (s\<lparr>lastEventId := decode P value\<rparr>, [])
                    else (s, [])
               else if fieldName = utf16 ''retry''
               then case parseInt P (decode P value) of
                      Some retryNum \<Rightarrow> (s\<lparr>retry := Some retryNum\<rparr>, [])
                    | None \<Rightarrow> (s, [])
               else (s, []))"

text \<open>\<^verbatim>\<open>flush(controller)\<close>.\<close>

definition sse_flush :: "('v, 'n) platform \<Rightarrow> 'n sse_state \<Rightarrow> 'v sse list" where
  "sse_flush P s = (if event s \<noteq> [] then enqueue_sse P s else [])"

text \<open>Feeding the lines one by one: the final state and every object enqueued.\<close>

fun sse_feed ::
  "('v, 'n) platform \<Rightarrow> 'n sse_state \<Rightarrow> bytes list \<Rightarrow> 'n sse_state \<times> 'v sse list" where
  "sse_feed P s [] = (s, [])"
| "sse_feed P s (line # rest) =
     (let (s', out) = sse_transform P s line;
          (s'', out') = sse_feed P s' rest
      in (s'', out @ out'))"

text \<open>A whole stream of lines through a fresh \<^verbatim>\<open>SafeSSEDecoder()\<close>.\<close>

definition SafeSSEDecoder :: "('v, 'n) platform \<Rightarrow> bytes list \<Rightarrow> 'v sse list" where
  "SafeSSEDecoder P lns =
     (let (s, out) = sse_feed P sse_start lns in out @ sse_flush P s)"

text \<open>
  A line that sets \<^verbatim>\<open>lastEventId\<close>: a field line with the name \<^verbatim>\<open>id\<close> and a value
  without NUL byte (lines 123 and 124).
\<close>

definition valid_id_line :: "('v, 'n) platform \<Rightarrow> bytes \<Rightarrow> bool" where
  "valid_id_line P line =
     (line \<noteq> [] \<and>
      (case split_field P line of
         None \<Rightarrow> False
       | Some (fieldName, value) \<Rightarrow> fieldName = utf16 ''id'' \<and> indexOf value NULL = None))"

text \<open>
  The values of the \<^verbatim>\<open>data\<close> field lines among the given lines, in order: what line 122
  pushes while these lines pass.
\<close>

fun data_values :: "('v, 'n) platform \<Rightarrow> bytes list \<Rightarrow> bytes list" where
  "data_values P [] = []"
| "data_values P (line # rest) =
     (if line = [] then data_values P rest
      else case split_field P line of
             None \<Rightarrow> data_values P rest
           | Some (fieldName, value) \<Rightarrow>
               if fieldName = utf16 ''data'' then value # data_values P rest
               else data_values P rest)"

section \<open>Run metadata and the patched stream method\<close>

text \<open>
  \<^verbatim>\<open>REGEX_RUN_METADATA\<close> is \<^verbatim>\<open>/(\/threads\/(?<thread_id>.+))?\/runs\/(?<run_id>.+)/\<close>,
  without flags. The dot matches every code unit but the four line terminators.
\<close>

definition dot :: "16 word \<Rightarrow> bool" where
  "dot c = (c \<noteq> 0x0A \<and> c \<noteq> 0x0D \<and> c \<noteq> 0x2028 \<and> c \<noteq> 0x2029)"

text \<open>What follows a literal at the start of the input, \<open>None\<close> when it is not there.\<close>

fun literal :: "jsstring \<Rightarrow> jsstring \<Rightarrow> jsstring option" where
  "literal [] s = Some s"
| "literal (c # cs) [] = None"
| "literal (c # cs) (d # s) = (if c = d then literal cs s else None)"

text \<open>
  \<^verbatim>\<open>\/runs\/(?<run_id>.+)\<close> at the start of the input. Nothing follows the greedy
  \<^verbatim>\<open>.+\<close>, which therefore takes every code unit up to the first line terminator.
\<close>

definition runs_part :: "jsstring \<Rightarrow> jsstring option" where
  "runs_part s =
     (case literal (utf16 ''/runs/'') s of
        None \<Rightarrow> None
      | Some r \<Rightarrow> (if takeWhile dot r = [] then None else Some (takeWhile dot r)))"

text \<open>
  The greedy \<^verbatim>\<open>(?<thread_id>.+)\<close> followed by the rest of the pattern: the longest of
  the first \<open>k\<close> candidates first, one code unit less at every backtracking step, and
  never the empty string.
\<close>

fun thread_part :: "nat \<Rightarrow> jsstring \<Rightarrow> (jsstring \<times> jsstring) option" where
  "thread_part 0 s = None"
| "thread_part (Suc k) s =
     (case runs_part (drop (Suc k) s) of
        Some run \<Rightarrow> Some (take (Suc k) s, run)
      | None \<Rightarrow> thread_part k s)"

text \<open>The whole pattern at the start of the input: the optional group is tried first.\<close>

definition match_here :: "jsstring \<Rightarrow> (jsstring option \<times> jsstring) option" where
  "match_here s =
     (case (case literal (utf16 ''/threads/'') s of
              None \<Rightarrow> None
            | Some r \<Rightarrow> thread_part (length (takeWhile dot r)) r) of
        Some (thread, run) \<Rightarrow> Some (Some thread, run)
      | None \<Rightarrow> map_option (\<lambda>run. (None, run)) (runs_part s))"

text \<open>\<^verbatim>\<open>REGEX_RUN_METADATA.exec\<close>: the groups \<^verbatim>\<open>thread_id\<close> and \<^verbatim>\<open>run_id\<close> of the leftmost
  match.\<close>

fun regex_exec :: "jsstring \<Rightarrow> (jsstring option \<times> jsstring) option" where
  "regex_exec [] = match_here []"
| "regex_exec (c # s) =
     (case match_here (c # s) of
        Some m \<Rightarrow> Some m
      | None \<Rightarrow> regex_exec s)"

record run_metadata =
  run_id :: jsstring
  thread_id :: "jsstring option"

text \<open>
  What the stream method reads of the response: the \<^verbatim>\<open>Content-Location\<close> header
  (\<open>None\<close> when \<^verbatim>\<open>headers.get\<close> returns \<^verbatim>\<open>null\<close>) and the chunks of the body
  (\<open>None\<close> when \<^verbatim>\<open>response.body\<close> is \<^verbatim>\<open>null\<close>).
\<close>

record response =
  content_location :: "jsstring option"
  body :: "bytes list option"

definition getRunMetadataFromResponse :: "response \<Rightarrow> run_metadata option" where
  "getRunMetadataFromResponse rsp =
     (case content_location rsp of
        None \<Rightarrow> None
      | Some contentLocation \<Rightarrow>
          if contentLocation = [] then None
          else case regex_exec contentLocation of
                 None \<Rightarrow> None
               | Some (thread, run) \<Rightarrow>
                   if run = [] then None
                   else Some \<lparr>run_id = run,
                              thread_id = (case thread of
                                             None \<Rightarrow> None
                                           | Some t \<Rightarrow> if t = [] then None else Some t)\<rparr>)"

text \<open>What the caller of the patched \<^verbatim>\<open>runs.stream\<close> observes, in order.\<close>

datatype 'v effect = OnRunCreated run_metadata | Yield "'v sse"

text \<open>
  The patched \<^verbatim>\<open>runs.stream\<close> from the response on: the call of
  \<^verbatim>\<open>payload.onRunCreated\<close> (when the payload has one), then the body, or an empty stream
  in its place, through \<^verbatim>\<open>BytesLineDecoder()\<close> and \<^verbatim>\<open>SafeSSEDecoder()\<close>, every object
  yielded. \<open>None\<close> is the exception of the line decoder.
\<close>

definition runs_stream ::
  "('v, 'n) platform \<Rightarrow> bool \<Rightarrow> response \<Rightarrow> 'v effect list option" where
  "runs_stream P has_onRunCreated rsp =
     (let runMetadata = getRunMetadataFromResponse rsp;
          called = (case runMetadata of
                      None \<Rightarrow> []
                    | Some m \<Rightarrow> if has_onRunCreated then [OnRunCreated m] else []);
          chunks = (case body rsp of None \<Rightarrow> [] | Some cs \<Rightarrow> cs)
      in case BytesLineDecoder chunks of
           None \<Rightarrow> None
         | Some lns \<Rightarrow> Some (called @ map Yield (SafeSSEDecoder P lns)))"

section \<open>A platform for concrete runs\<close>

text \<open>
  The general theorems below hold for every platform. Concrete runs need one: this one
  agrees with the JavaScript functions on the inputs of the examples, that is on 7-bit
  text, on JSON documents that are \<^verbatim>\<open>null\<close> or a decimal number without sign, fraction
  or leading zero, on text that is no JSON at all, and on digit strings.
\<close>

definition ascii_decode :: "bytes \<Rightarrow> jsstring" where
  "ascii_decode bs = map ucast bs"

definition is_digit :: "16 word \<Rightarrow> bool" where
  "is_digit c = (0x30 \<le> c \<and> c \<le> 0x39)"

definition decimal :: "jsstring \<Rightarrow> nat" where
  "decimal s = foldl (\<lambda>n c. 10 * n + (unat c - 48)) 0 s"

definition decimal_JSON_parse :: "jsstring \<Rightarrow> nat json option" where
  "decimal_JSON_parse s =
     (if s = utf16 ''null'' then Some JNull
      else if s \<noteq> [] \<and> list_all is_digit s \<and> (length s = 1 \<or> 0x30 < hd s)
      then Some (JValue (decimal s))
      else None)"

definition decimal_parseInt :: "jsstring \<Rightarrow> nat option" where
  "decimal_parseInt s = (if s \<noteq> [] \<and> list_all is_digit s then Some (decimal s) else None)"

definition example_platform :: "(nat, nat) platform" where
  "example_platform =
     \<lparr>decode = ascii_decode, JSON_parse = decimal_JSON_parse, parseInt = decimal_parseInt\<rparr>"


section \<open>The scanner that the line decoder implements\<close>

text \<open>
  A reference for the proofs, written by recursion on the text and not taken from the
  source: \<open>term_lines cur bs\<close> are the lines of \<open>bs\<close> that a terminator (\<^verbatim>\<open>\r\n\<close>,
  \<^verbatim>\<open>\r\<close> or \<^verbatim>\<open>\n\<close>) ends, the first of them with \<open>cur\<close> in front, and \<open>rest_line cur bs\<close>
  is what follows the last terminator.
\<close>

fun term_lines :: "bytes \<Rightarrow> bytes \<Rightarrow> bytes list" where
  "term_lines cur [] = []"
| "term_lines cur [b] = (if b = CR \<or> b = LF then [cur] else [])"
| "term_lines cur (b # c # bs) =
     (if b = CR \<and> c = LF then cur # term_lines [] bs
      else if b = CR \<or> b = LF then cur # term_lines [] (c # bs)
      else term_lines (cur @ [b]) (c # bs))"

fun rest_line :: "bytes \<Rightarrow> bytes \<Rightarrow> bytes" where
  "rest_line cur [] = cur"
| "rest_line cur [b] = (if b = CR \<or> b = LF then [] else cur @ [b])"
| "rest_line cur (b # c # bs) =
     (if b = CR \<and> c = LF then rest_line [] bs
      else if b = CR \<or> b = LF then rest_line [] (c # bs)
      else rest_line (cur @ [b]) (c # bs))"

definition all_lines :: "bytes \<Rightarrow> bytes \<Rightarrow> bytes list" where
  "all_lines cur bs =
     term_lines cur bs @ (if rest_line cur bs = [] then [] else [rest_line cur bs])"


text \<open>
  The text a chunk stands for, given the flag the previous chunk left; whether a text
  ends with a carriage return; and the text without it.
\<close>

definition cr_text :: "bool \<Rightarrow> bytes \<Rightarrow> bytes" where
  "cr_text cr chunk = (if cr then CR # chunk else chunk)"

definition ends_cr :: "bytes \<Rightarrow> bool" where
  "ends_cr t = (t \<noteq> [] \<and> last t = CR)"

definition trim_cr :: "bytes \<Rightarrow> bytes" where
  "trim_cr t = (if ends_cr t then butlast t else t)"



section \<open>The reduce call splits as the scanner does\<close>

lemma all_lines_Nil: "all_lines cur [] = (if cur = [] then [] else [cur])"
  by (simp add: all_lines_def)

lemma all_lines_single:
  "all_lines cur [b] = (if b = CR \<or> b = LF then [cur] else [cur @ [b]])"
  by (simp add: all_lines_def)

lemma all_lines_Cons2:
  "all_lines cur (b # c # bs) =
     (if b = CR \<and> c = LF then cur # all_lines [] bs
      else if b = CR \<or> b = LF then cur # all_lines [] (c # bs)
      else all_lines (cur @ [b]) (c # bs))"
  by (simp add: all_lines_def)

lemma subarray_same: "subarray t i i = []"
  by (simp add: subarray_def)

lemma subarray_snoc:
  "f \<le> i \<Longrightarrow> i < length t \<Longrightarrow> subarray t f (Suc i) = subarray t f i @ [t ! i]"
  by (simp add: subarray_def Suc_diff_le take_Suc_conv_app_nth)

lemma subarray_to_end:
  "f \<le> i \<Longrightarrow> Suc i = length t \<Longrightarrow> subarray t f i @ [t ! i] = drop f t"
  using subarray_snoc [of f i t] by (simp add: subarray_def)

lemma reduce_scan:
  "i < length text \<Longrightarrow> f \<le> Suc i \<Longrightarrow>
   lines (foldl (reduce_step text) \<lparr>lines = ls, frm = f\<rparr> [i..<length text]) =
     ls @ (if f = Suc i then all_lines [] (drop (Suc i) text)
           else all_lines (subarray text f i) (drop i text))"
proof (induction "length text - i" arbitrary: i f ls)
  case 0
  then show ?case by simp
next
  case (Suc k)
  let ?n = "length text"
  have upt: "[i..<?n] = i # [Suc i..<?n]"
    using Suc.prems by (simp add: upt_conv_Cons)
  have di: "drop i text = text ! i # drop (Suc i) text"
    using Suc.prems by (simp add: Cons_nth_drop_Suc)
  show ?case
  proof (cases "Suc i = ?n")
    case True
    then have n: "length text = Suc i" by simp
    have e: "[Suc i..<Suc i] = []" "drop (Suc i) text = []" using n by auto
    show ?thesis
    proof (cases "f = Suc i")
      case True
      then show ?thesis
        by (simp add: upt n e di reduce_step_def all_lines_Nil)
    next
      case False
      then have fi: "f \<le> i" using Suc.prems by simp
      show ?thesis
        using fi subarray_to_end [OF fi \<open>Suc i = ?n\<close>]
        by (simp add: upt n e di reduce_step_def all_lines_single Let_def)
    qed
  next
    case False
    then have lt: "Suc i < ?n" using Suc.prems by simp
    have k: "k = ?n - Suc i" using Suc.hyps by simp
    have dsi: "drop (Suc i) text = text ! Suc i # drop (Suc (Suc i)) text"
      using lt by (simp add: Cons_nth_drop_Suc)
    have nl: "?n - 1 \<noteq> i" using lt by simp
    note IH = Suc.hyps(1) [OF k lt]
    show ?thesis
    proof (cases "f = Suc i")
      case True
      then show ?thesis
        using IH [of "Suc i" ls]
        by (simp add: upt reduce_step_def subarray_same)
    next
      case False
      then have fi: "f \<le> i" using Suc.prems by simp
      show ?thesis
        using fi lt nl IH [of "Suc (Suc i)" "ls @ [subarray text f i]"]
          IH [of "Suc i" "ls @ [subarray text f i]"] IH [of f ls]
        by (simp add: upt di dsi reduce_step_def Let_def all_lines_Cons2 subarray_same
            subarray_snoc)
    qed
  qed
qed

lemma split_lines_all_lines: "split_lines text = all_lines [] text"
proof (cases "text = []")
  case True
  then show ?thesis by (simp add: split_lines_def all_lines_Nil)
next
  case False
  then show ?thesis
    using reduce_scan [of 0 "text" 0 "[]"] by (simp add: split_lines_def subarray_same)
qed


lemma CR_neq_LF: "CR \<noteq> LF"
  by (simp add: CR_def LF_def)

lemma joinArrays_concat: "joinArrays parts = concat parts"
proof -
  have "foldl (\<lambda>merged c. merged @ c) a parts = a @ concat parts" for a :: bytes
    by (induction parts arbitrary: a) simp_all
  then show ?thesis by (simp add: joinArrays_def)
qed

lemma rest_line_empty_iff:
  "bs \<noteq> [] \<Longrightarrow> (rest_line cur bs = []) = (last bs = CR \<or> last bs = LF)"
  by (induction cur bs rule: rest_line.induct) auto

lemma term_lines_empty_rest:
  "term_lines cur bs = [] \<Longrightarrow> rest_line cur bs = cur @ bs"
  by (induction cur bs rule: term_lines.induct) (auto split: if_splits)

lemma term_lines_prefix:
  "term_lines (p @ cur) bs =
     (case term_lines cur bs of [] \<Rightarrow> [] | l # ls \<Rightarrow> (p @ l) # ls)"
  by (induction cur bs rule: term_lines.induct) auto

lemma rest_line_prefix:
  "rest_line (p @ cur) bs =
     (if term_lines cur bs = [] then p @ rest_line cur bs else rest_line cur bs)"
  by (induction cur bs rule: term_lines.induct) auto

lemma scan_append:
  "\<not> (x \<noteq> [] \<and> last x = CR \<and> y \<noteq> [] \<and> hd y = LF) \<Longrightarrow>
   term_lines cur (x @ y) = term_lines cur x @ term_lines (rest_line cur x) y \<and>
   rest_line cur (x @ y) = rest_line (rest_line cur x) y"
proof (induction cur x rule: term_lines.induct)
  case (1 cur)
  then show ?case by simp
next
  case (2 cur b)
  then show ?case by (cases y) (auto simp: CR_neq_LF)
next
  case (3 cur b c bs)
  then show ?case by (auto split: if_splits)
qed



section \<open>The line decoder, chunk by chunk, runs the scanner on the whole stream\<close>

lemma hold_trailing_cr_eq:
  "hold_trailing_cr s chunk =
     (trim_cr (cr_text (trailingCr s) chunk),
      s\<lparr>trailingCr := ends_cr (cr_text (trailingCr s) chunk)\<rparr>)"
  by (cases "trailingCr s")
    (simp_all add: hold_trailing_cr_def joinArrays_concat cr_text_def ends_cr_def trim_cr_def)

lemma emit_lines_scan:
  assumes t: "text \<noteq> []" and inv: "[] \<notin> set (buffer s)"
  shows "\<exists>s'. emit_lines s text = Some (s', term_lines (concat (buffer s)) text) \<and>
           concat (buffer s') = rest_line (concat (buffer s)) text \<and>
           trailingCr s' = trailingCr s \<and> [] \<notin> set (buffer s')"
proof -
  define T where "T = term_lines [] text"
  define r where "r = rest_line [] text"
  define p where "p = concat (buffer s)"
  have tn: "(last text \<in> set TRAILING_NEWLINE) = (r = [])"
    using t by (auto simp: TRAILING_NEWLINE_def rest_line_empty_iff r_def)
  have sl: "split_lines text = T @ (if r = [] then [] else [r])"
    by (simp add: split_lines_all_lines all_lines_def T_def r_def)
  have tp: "term_lines p text = (case T of [] \<Rightarrow> [] | l # ls \<Rightarrow> (p @ l) # ls)"
    using term_lines_prefix [of p "[]" "text"] by (simp add: T_def)
  have rp: "rest_line p text = (if T = [] then p @ r else r)"
    using rest_line_prefix [of p "[]" "text"] by (simp add: T_def r_def)
  have pe: "(p = []) = (buffer s = [])"
    using inv by (cases "buffer s") (auto simp: p_def)
  show ?thesis
  proof (cases T)
    case Nil
    then have "r = text" using term_lines_empty_rest [of "[]" "text"] by (simp add: T_def r_def)
    then have rn: "r \<noteq> []" using t by simp
    show ?thesis
      using Nil rn inv
      by (simp add: emit_lines_def tn sl tp rp p_def [symmetric])
  next
    case (Cons l ls)
    have pj: "joinArrays (buffer s @ [l]) = p @ l"
      by (simp add: joinArrays_concat p_def)
    show ?thesis
    proof (cases "buffer s = []")
      case True
      then have "p = []" by (simp add: p_def)
      then show ?thesis
        using Cons True
        by (cases "r = []")
          (simp_all add: emit_lines_def tn sl Let_def butlast_append
            T_def [symmetric] r_def [symmetric])
    next
      case False
      then show ?thesis
        using Cons
        by (cases "r = []")
          (simp_all add: emit_lines_def tn sl tp rp pj Let_def butlast_append
            p_def [symmetric])
    qed
  qed
qed


lemma line_transform_scan:
  assumes inv: "[] \<notin> set (buffer s)"
  shows "\<exists>s'. line_transform s chunk =
             Some (s', term_lines (concat (buffer s)) (trim_cr (cr_text (trailingCr s) chunk))) \<and>
           concat (buffer s') =
             rest_line (concat (buffer s)) (trim_cr (cr_text (trailingCr s) chunk)) \<and>
           trailingCr s' = ends_cr (cr_text (trailingCr s) chunk) \<and>
           [] \<notin> set (buffer s')"
proof (cases "trim_cr (cr_text (trailingCr s) chunk) = []")
  case True
  then show ?thesis
    using inv by (simp add: line_transform_def hold_trailing_cr_eq)
next
  case False
  show ?thesis
    using emit_lines_scan [OF False,
        of "s\<lparr>trailingCr := ends_cr (cr_text (trailingCr s) chunk)\<rparr>"] inv False
    by (simp add: line_transform_def hold_trailing_cr_eq)
qed

lemma trim_cr_append:
  "y \<noteq> [] \<Longrightarrow> trim_cr (x @ y) = x @ trim_cr y \<and> ends_cr (x @ y) = ends_cr y"
  by (simp add: trim_cr_def ends_cr_def butlast_append)

lemma held_cr_glue:
  fixes t w :: bytes
  defines "v \<equiv> cr_text (ends_cr t) w"
  shows "trim_cr (t @ w) = trim_cr t @ trim_cr v"
    and "ends_cr (t @ w) = ends_cr v"
    and "\<not> (trim_cr t \<noteq> [] \<and> last (trim_cr t) = CR \<and> trim_cr v \<noteq> [] \<and> hd (trim_cr v) = LF)"
proof -
  have both: "trim_cr (t @ w) = trim_cr t @ trim_cr v \<and> ends_cr (t @ w) = ends_cr v"
  proof (cases "ends_cr t")
    case True
    then have t: "t = butlast t @ [CR]"
      by (metis ends_cr_def append_butlast_last_id)
    have v: "v = CR # w" using True by (simp add: v_def cr_text_def)
    have tw: "t @ w = butlast t @ v" using t v
      by (metis append_Cons append_Nil append_assoc)
    have vn: "v \<noteq> []" using v by simp
    have tt: "trim_cr t = butlast t" using True by (simp add: trim_cr_def)
    show ?thesis
      using trim_cr_append [OF vn, of "butlast t"] unfolding tw tt by simp
  next
    case False
    then have v: "v = w" by (simp add: v_def cr_text_def)
    show ?thesis
    proof (cases "w = []")
      case True
      then show ?thesis using False v by (simp add: trim_cr_def ends_cr_def)
    next
      case nonempty: False
      have "trim_cr t = t" using False by (simp add: trim_cr_def)
      then show ?thesis
        using trim_cr_append [OF nonempty, of t] by (simp add: v)
    qed
  qed
  show "trim_cr (t @ w) = trim_cr t @ trim_cr v" "ends_cr (t @ w) = ends_cr v"
    using both by simp_all
  show "\<not> (trim_cr t \<noteq> [] \<and> last (trim_cr t) = CR \<and> trim_cr v \<noteq> [] \<and> hd (trim_cr v) = LF)"
  proof (cases "ends_cr t")
    case True
    then have v: "v = CR # w" by (simp add: v_def cr_text_def)
    have "trim_cr v = [] \<or> hd (trim_cr v) = CR"
      by (cases "w = []") (auto simp: v trim_cr_def ends_cr_def)
    then show ?thesis using CR_neq_LF by auto
  next
    case False
    then show ?thesis by (auto simp: trim_cr_def ends_cr_def)
  qed
qed

lemma line_feed_scan:
  "[] \<notin> set (buffer s) \<Longrightarrow>
   \<exists>s'. line_feed s chunks =
          Some (s', term_lines (concat (buffer s))
                      (trim_cr (cr_text (trailingCr s) (concat chunks)))) \<and>
        concat (buffer s') =
          rest_line (concat (buffer s)) (trim_cr (cr_text (trailingCr s) (concat chunks))) \<and>
        trailingCr s' = ends_cr (cr_text (trailingCr s) (concat chunks)) \<and>
        [] \<notin> set (buffer s')"
proof (induction chunks arbitrary: s)
  case Nil
  then show ?case
    by (cases "trailingCr s") (simp_all add: cr_text_def trim_cr_def ends_cr_def)
next
  case (Cons c cs)
  define t where "t = cr_text (trailingCr s) c"
  define p where "p = concat (buffer s)"
  obtain s1 where s1: "line_transform s c = Some (s1, term_lines p (trim_cr t))"
    "concat (buffer s1) = rest_line p (trim_cr t)" "trailingCr s1 = ends_cr t"
    "[] \<notin> set (buffer s1)"
    using line_transform_scan [OF Cons.prems, of c] unfolding t_def p_def by blast
  define v where "v = cr_text (ends_cr t) (concat cs)"
  obtain s2 where s2: "line_feed s1 cs = Some (s2, term_lines (rest_line p (trim_cr t)) (trim_cr v))"
    "concat (buffer s2) = rest_line (rest_line p (trim_cr t)) (trim_cr v)"
    "trailingCr s2 = ends_cr v" "[] \<notin> set (buffer s2)"
    using Cons.IH [OF s1(4)] unfolding s1(2,3) v_def by blast
  have whole: "cr_text (trailingCr s) (concat (c # cs)) = t @ concat cs"
    by (simp add: t_def cr_text_def)
  note glue = held_cr_glue [of t "concat cs", folded v_def]
  note split = scan_append [OF glue(3), of p]
  have "line_feed s (c # cs) = Some (s2, term_lines p (trim_cr (t @ concat cs)))"
    using s1(1) s2(1) split by (simp add: glue(1))
  moreover have "concat (buffer s2) = rest_line p (trim_cr (t @ concat cs))"
    using s2(2) split by (simp add: glue(1))
  moreover have "trailingCr s2 = ends_cr (t @ concat cs)"
    using s2(3) by (simp add: glue(2))
  ultimately show ?case
    using s2(4) unfolding whole p_def by blast
qed

lemma BytesLineDecoder_scan:
  "BytesLineDecoder chunks = Some (all_lines [] (trim_cr (concat chunks)))"
proof -
  obtain s' where s': "line_feed line_start chunks = Some (s', term_lines [] (trim_cr (concat chunks)))"
    "concat (buffer s') = rest_line [] (trim_cr (concat chunks))" "[] \<notin> set (buffer s')"
    using line_feed_scan [of line_start chunks] by (auto simp: line_start_def cr_text_def)
  have "(buffer s' = []) = (concat (buffer s') = [])"
    using s'(3) by (cases "buffer s'") auto
  then have "line_flush s' =
      (if rest_line [] (trim_cr (concat chunks)) = [] then []
       else [rest_line [] (trim_cr (concat chunks))])"
    using s'(2) by (simp add: line_flush_def joinArrays_concat)
  then show ?thesis
    using s'(1) by (simp add: BytesLineDecoder_def all_lines_def)
qed


text \<open>
  C1. However a byte sequence is cut into chunks, also between a \<^verbatim>\<open>\r\<close> and its \<^verbatim>\<open>\n\<close>
  and with empty chunks among them, \<^verbatim>\<open>BytesLineDecoder\<close> fed the chunks one by one and
  then flushed throws nothing and enqueues the same lines, in the same order, as when it
  is fed the whole sequence as one chunk and then flushed.
\<close>

theorem C1_chunking_invariant:
  "\<exists>lns. BytesLineDecoder chunks = Some lns \<and> BytesLineDecoder [concat chunks] = Some lns"
  by (simp add: BytesLineDecoder_scan)

theorem C1_chunking_invariant_witness:
  "BytesLineDecoder [[97, CR], [LF, 98], [], [CR]] = Some [[97], [98]] \<and>
   BytesLineDecoder [[97, CR, LF, 98, CR]] = Some [[97], [98]]"
proof -
  have "BytesLineDecoder [[97, CR], [LF, 98], [], [CR]] = Some [[97], [98]]"
    by code_simp
  then show ?thesis
    using C1_chunking_invariant [of "[[97, CR], [LF, 98], [], [CR]]"] by simp
qed

text \<open>
  C9. A chunk that is exactly \<^verbatim>\<open>\n\<close> or \<^verbatim>\<open>\r\n\<close> gives one empty line, and an empty chunk
  gives nothing and leaves the state as it is. A chunk that is exactly \<^verbatim>\<open>\r\<close> gives no
  line at all, neither from \<^verbatim>\<open>transform\<close> nor from \<^verbatim>\<open>flush\<close>: \<^verbatim>\<open>transform\<close> only sets
  \<^verbatim>\<open>trailingCr\<close>, and \<^verbatim>\<open>flush\<close> looks at the buffer alone.
\<close>

theorem C9_lone_CR_lost:
  "BytesLineDecoder [[CR]] = Some [] \<and>
   line_transform line_start [CR] = Some (\<lparr>buffer = [], trailingCr = True\<rparr>, []) \<and>
   line_flush \<lparr>buffer = [], trailingCr = True\<rparr> = [] \<and>
   BytesLineDecoder [[LF]] = Some [[]] \<and>
   BytesLineDecoder [[CR, LF]] = Some [[]] \<and>
   line_transform s [] = Some (s, [])"
proof -
  have "line_transform s [] = Some (s, [])"
    by (cases "trailingCr s") (simp_all add: line_transform_def hold_trailing_cr_def joinArrays_def)
  moreover have "BytesLineDecoder [[CR]] = Some []" by code_simp
  moreover have "line_transform line_start [CR] = Some (\<lparr>buffer = [], trailingCr = True\<rparr>, [])"
    by code_simp
  moreover have "line_flush \<lparr>buffer = [], trailingCr = True\<rparr> = []" by code_simp
  moreover have "BytesLineDecoder [[LF]] = Some [[]]" by code_simp
  moreover have "BytesLineDecoder [[CR, LF]] = Some [[]]" by code_simp
  ultimately show ?thesis by simp
qed


section \<open>The event decoder, line by line\<close>

lemma indexOf_None_iff: "(indexOf bs x = None) = (x \<notin> set bs)"
  by (induction bs) auto

lemma sse_transform_blank:
  "sse_transform P s [] =
     (if event s = [] \<and> data s = [] \<and> lastEventId s = [] \<and> retry s = None then (s, [])
      else (s\<lparr>event := [], data := [], retry := None\<rparr>, enqueue_sse P s))"
  by (simp add: sse_transform_def)

lemma enqueue_sse_cases:
  "enqueue_sse P s =
     (if data s = []
      then [\<lparr>sse_id = (if lastEventId s = [] then None else Some (lastEventId s)),
             sse_event = event s, sse_data = JNull\<rparr>]
      else case decodeArraysToJson P (data s) of
             None \<Rightarrow> []
           | Some j \<Rightarrow>
               [\<lparr>sse_id = (if lastEventId s = [] then None else Some (lastEventId s)),
                 sse_event = event s, sse_data = j\<rparr>])"
  by (simp add: enqueue_sse_def)

lemma sse_feed_append:
  "sse_feed P s (xs @ ys) =
     (fst (sse_feed P (fst (sse_feed P s xs)) ys),
      snd (sse_feed P s xs) @ snd (sse_feed P (fst (sse_feed P s xs)) ys))"
  by (induction xs arbitrary: s) (simp_all add: split_beta)

lemma sse_feed_Cons:
  "sse_feed P s (l # ls) =
     (fst (sse_feed P (fst (sse_transform P s l)) ls),
      snd (sse_transform P s l) @ snd (sse_feed P (fst (sse_transform P s l)) ls))"
  by (simp add: split_beta)

declare sse_feed.simps(2) [simp del]

lemma field_names_distinct:
  "utf16 ''data'' \<noteq> utf16 ''event''" "utf16 ''id'' \<noteq> utf16 ''event''"
  "utf16 ''id'' \<noteq> utf16 ''data''" "utf16 ''retry'' \<noteq> utf16 ''event''"
  "utf16 ''retry'' \<noteq> utf16 ''data''" "utf16 ''retry'' \<noteq> utf16 ''id''"
  by (simp_all add: utf16_def)

lemma sse_transform_nonblank_out: "line \<noteq> [] \<Longrightarrow> snd (sse_transform P s line) = []"
  by (simp add: sse_transform_def split: option.splits prod.splits)

lemma sse_transform_id:
  "line \<noteq> [] \<Longrightarrow> split_field P line = Some (utf16 ''id'', v) \<Longrightarrow>
   sse_transform P s line =
     (if indexOf v NULL = None then (s\<lparr>lastEventId := decode P v\<rparr>, []) else (s, []))"
  by (simp add: sse_transform_def field_names_distinct)

lemma sse_transform_lastEventId:
  "\<not> valid_id_line P line \<Longrightarrow> lastEventId (fst (sse_transform P s line)) = lastEventId s"
  by (cases "line = []")
    (auto simp: sse_transform_def valid_id_line_def split: option.splits prod.splits)

lemma enqueue_sse_id:
  "e \<in> set (enqueue_sse P s) \<Longrightarrow>
   sse_id e = (if lastEventId s = [] then None else Some (lastEventId s))"
  by (auto simp: enqueue_sse_cases split: if_splits option.splits)

lemma sse_transform_out_id:
  "e \<in> set (snd (sse_transform P s line)) \<Longrightarrow>
   sse_id e = (if lastEventId s = [] then None else Some (lastEventId s))"
proof (cases "line = []")
  case True
  then show "e \<in> set (snd (sse_transform P s line)) \<Longrightarrow> ?thesis"
    using enqueue_sse_id [of e P s] by (simp add: sse_transform_blank split: if_splits)
next
  case False
  then show "e \<in> set (snd (sse_transform P s line)) \<Longrightarrow> ?thesis"
    by (simp add: sse_transform_nonblank_out)
qed

lemma sse_flush_id:
  "e \<in> set (sse_flush P s) \<Longrightarrow>
   sse_id e = (if lastEventId s = [] then None else Some (lastEventId s))"
  using enqueue_sse_id [of e P s] by (simp add: sse_flush_def split: if_splits)

lemma sse_feed_keeps_id:
  "list_all (\<lambda>l. \<not> valid_id_line P l) lns \<Longrightarrow>
   lastEventId (fst (sse_feed P s lns)) = lastEventId s \<and>
   (\<forall>e \<in> set (snd (sse_feed P s lns)).
      sse_id e = (if lastEventId s = [] then None else Some (lastEventId s)))"
proof (induction lns arbitrary: s)
  case Nil
  then show ?case by simp
next
  case (Cons l ls)
  then have l: "\<not> valid_id_line P l" and ls: "list_all (\<lambda>l. \<not> valid_id_line P l) ls"
    by simp_all
  have keep: "lastEventId (fst (sse_transform P s l)) = lastEventId s"
    by (rule sse_transform_lastEventId [OF l])
  show ?case
    using Cons.IH [OF ls, of "fst (sse_transform P s l)"] keep sse_transform_out_id [of _ P s l]
    by (auto simp: sse_feed_Cons)
qed

lemma sse_feed_nonblank_out: "[] \<notin> set lns \<Longrightarrow> snd (sse_feed P s lns) = []"
  by (induction lns arbitrary: s) (auto simp: sse_feed_Cons sse_transform_nonblank_out)

lemma SafeSSEDecoder_eq:
  "SafeSSEDecoder P lns =
     snd (sse_feed P sse_start lns) @ sse_flush P (fst (sse_feed P sse_start lns))"
  by (simp add: SafeSSEDecoder_def split_beta)

lemma runs_stream_total:
  "\<exists>lns. BytesLineDecoder (case body rsp of None \<Rightarrow> [] | Some cs \<Rightarrow> cs) = Some lns \<and>
     runs_stream P cb rsp =
       Some ((case getRunMetadataFromResponse rsp of
                None \<Rightarrow> []
              | Some m \<Rightarrow> if cb then [OnRunCreated m] else []) @
             map Yield (SafeSSEDecoder P lns))"
  by (simp add: runs_stream_def BytesLineDecoder_scan)


text \<open>
  C2, as the claim states it, fails: after the single line \<^verbatim>\<open>data: 1\<close> the \<^verbatim>\<open>event\<close>
  field is empty, and the blank line enqueues an event all the same.
\<close>

theorem C2_counterexample:
  "fst (sse_feed example_platform sse_start [ascii ''data: 1'']) =
     \<lparr>event = [], data = [ascii ''1''], lastEventId = [], retry = None\<rparr> \<and>
   snd (sse_transform example_platform
          \<lparr>event = [], data = [ascii ''1''], lastEventId = [], retry = None\<rparr> []) =
     [\<lparr>sse_id = None, sse_event = [], sse_data = JValue 1\<rparr>]"
  by code_simp


text \<open>
  C2, amended. On an empty line the decoder enqueues an event exactly when one of
  \<^verbatim>\<open>event\<close>, \<^verbatim>\<open>data\<close>, \<^verbatim>\<open>lastEventId\<close> and \<^verbatim>\<open>retry\<close> is set and the data is
  empty or parses as JSON. The \<^verbatim>\<open>event\<close> field need not be set: the event enqueued
  carries the field as it is, also when it is empty.
\<close>

theorem C2_blank_line_dispatch:
  "(snd (sse_transform P s []) \<noteq> []) =
     ((event s \<noteq> [] \<or> data s \<noteq> [] \<or> lastEventId s \<noteq> [] \<or> retry s \<noteq> None) \<and>
      (data s = [] \<or> decodeArraysToJson P (data s) \<noteq> None)) \<and>
   (\<forall>e \<in> set (snd (sse_transform P s [])). sse_event e = event s)"
  by (auto simp: sse_transform_blank enqueue_sse_cases split: option.splits)

theorem C2_blank_line_dispatch_witness:
  "snd (sse_transform example_platform
          \<lparr>event = [], data = [], lastEventId = utf16 ''7'', retry = None\<rparr> []) \<noteq> [] \<and>
   snd (sse_transform example_platform
          \<lparr>event = utf16 ''foo'', data = [ascii ''x''], lastEventId = [], retry = None\<rparr> []) = []"
proof -
  have a: "decodeArraysToJson example_platform [ascii ''x''] = None" by code_simp
  show ?thesis
    using C2_blank_line_dispatch [of example_platform
        "\<lparr>event = [], data = [], lastEventId = utf16 ''7'', retry = None\<rparr>"]
      C2_blank_line_dispatch [of example_platform
        "\<lparr>event = utf16 ''foo'', data = [ascii ''x''], lastEventId = [], retry = None\<rparr>"] a
    by (simp add: utf16_def)
qed



text \<open>
  C3, as the claim states it, fails: the values \<^verbatim>\<open>1\<close> and \<^verbatim>\<open>2\<close> of two data lines reach
  the parser as \<^verbatim>\<open>12\<close>, with no line separator between them.
\<close>

theorem C3_counterexample:
  "joinArrays (data (fst (sse_feed example_platform sse_start
      [ascii ''data: 1'', ascii ''data: 2'']))) = [0x31, 0x32] \<and>
   joinArrays (data (fst (sse_feed example_platform sse_start
      [ascii ''data: 1'', ascii ''data: 2'']))) \<noteq> [0x31, LF, 0x32] \<and>
   SafeSSEDecoder example_platform [ascii ''data: 1'', ascii ''data: 2'', []] =
     [\<lparr>sse_id = None, sse_event = [], sse_data = JValue 12\<rparr>]"
  by code_simp


lemma sse_transform_data_values:
  "line \<noteq> [] \<Longrightarrow> data (fst (sse_transform P s line)) = data s @ data_values P [line]"
  by (simp add: sse_transform_def field_names_distinct split: option.splits prod.splits)

lemma data_values_Cons:
  "data_values P (line # rest) = data_values P [line] @ data_values P rest"
  by (simp split: option.splits prod.splits)

lemma sse_feed_data_values:
  "[] \<notin> set lns \<Longrightarrow> data (fst (sse_feed P s lns)) = data s @ data_values P lns"
proof (induction lns arbitrary: s)
  case Nil
  then show ?case by simp
next
  case (Cons l ls)
  then have l: "l \<noteq> []" and ls: "[] \<notin> set ls" by auto
  show ?case
    using Cons.IH [OF ls, of "fst (sse_transform P s l)"] sse_transform_data_values [OF l, of P s]
      data_values_Cons [of P l ls]
    by (simp add: sse_feed_Cons)
qed

text \<open>
  C3, amended. Over any lines without a blank line among them, whatever other field,
  comment or ignored lines stand between the data lines, the data accumulator grows by
  the values of the data lines in arrival order and loses nothing. The text handed to the
  JSON parser, by the next blank line and by \<^verbatim>\<open>flush\<close>, is the decoded concatenation
  of all the values, with nothing between them.
\<close>

theorem C3_data_concatenated:
  fixes P :: "('v, 'n) platform" and s :: "'n sse_state"
  assumes "[] \<notin> set lns"
  shows "data (fst (sse_feed P s lns)) = data s @ data_values P lns \<and>
         snd (sse_feed P s lns) = [] \<and>
         decodeArraysToJson P (data s @ data_values P lns) =
           JSON_parse P (decode P (concat (data s @ data_values P lns))) \<and>
         (data s @ data_values P lns \<noteq> [] \<longrightarrow>
            snd (sse_transform P (fst (sse_feed P s lns)) []) =
              (case JSON_parse P (decode P (concat (data s @ data_values P lns))) of
                 None \<Rightarrow> []
               | Some j \<Rightarrow>
                   [\<lparr>sse_id = (if lastEventId (fst (sse_feed P s lns)) = [] then None
                               else Some (lastEventId (fst (sse_feed P s lns)))),
                     sse_event = event (fst (sse_feed P s lns)), sse_data = j\<rparr>]) \<and>
            (event (fst (sse_feed P s lns)) \<noteq> [] \<longrightarrow>
               sse_flush P (fst (sse_feed P s lns)) =
                 snd (sse_transform P (fst (sse_feed P s lns)) [])))"
proof -
  let ?s' = "fst (sse_feed P s lns)"
  have d: "data ?s' = data s @ data_values P lns"
    by (rule sse_feed_data_values [OF assms])
  have out: "snd (sse_feed P s lns) = []"
    by (rule sse_feed_nonblank_out [OF assms])
  have parse: "decodeArraysToJson P d = JSON_parse P (decode P (concat d))" for d
    by (simp add: decodeArraysToJson_def joinArrays_concat split: option.splits)
  have blank: "snd (sse_transform P ?s' []) =
      (case JSON_parse P (decode P (concat (data s @ data_values P lns))) of
         None \<Rightarrow> []
       | Some j \<Rightarrow>
           [\<lparr>sse_id = (if lastEventId ?s' = [] then None else Some (lastEventId ?s')),
             sse_event = event ?s', sse_data = j\<rparr>])"
    if "data s @ data_values P lns \<noteq> []"
  proof -
    have "data ?s' \<noteq> []" using that d by simp
    then have "snd (sse_transform P ?s' []) =
      (case decodeArraysToJson P (data ?s') of
         None \<Rightarrow> []
       | Some j \<Rightarrow>
           [\<lparr>sse_id = (if lastEventId ?s' = [] then None else Some (lastEventId ?s')),
             sse_event = event ?s', sse_data = j\<rparr>])"
      by (simp add: sse_transform_blank enqueue_sse_cases)
    then show ?thesis
      by (simp only: parse d)
  qed
  have flush: "sse_flush P ?s' = snd (sse_transform P ?s' [])" if "event ?s' \<noteq> []"
    using that by (simp add: sse_flush_def sse_transform_blank)
  show ?thesis
    using d out parse [of "data s @ data_values P lns"] blank flush by blast
qed

theorem C3_data_concatenated_witness:
  "data (fst (sse_feed example_platform sse_start
           [ascii ''data: 1'', ascii ''id: 5'', ascii '': note'', ascii ''data:2''])) =
     [ascii ''1'', ascii ''2''] \<and>
   snd (sse_transform example_platform
     (fst (sse_feed example_platform sse_start
             [ascii ''data: 1'', ascii ''id: 5'', ascii '': note'', ascii ''data:2''])) []) =
     [\<lparr>sse_id = Some (utf16 ''5''), sse_event = [], sse_data = JValue 12\<rparr>]"
proof -
  let ?lns = "[ascii ''data: 1'', ascii ''id: 5'', ascii '': note'', ascii ''data:2'']"
  have h: "[] \<notin> set ?lns" by (simp add: ascii_def)
  have v: "data_values example_platform ?lns = [ascii ''1'', ascii ''2'']"
    by code_simp
  have p: "JSON_parse example_platform (decode example_platform (concat [ascii ''1'', ascii ''2'']))
             = Some (JValue 12)"
    by code_simp
  have i: "lastEventId (fst (sse_feed example_platform sse_start ?lns)) = utf16 ''5''"
    "event (fst (sse_feed example_platform sse_start ?lns)) = []"
    by code_simp+
  have s0: "data (sse_start :: nat sse_state) = []" by (simp add: sse_start_def)
  have u: "utf16 ''5'' \<noteq> []" by (simp add: utf16_def)
  note inst = C3_data_concatenated [OF h, of example_platform sse_start]
  have a: "data (fst (sse_feed example_platform sse_start ?lns)) = [ascii ''1'', ascii ''2'']"
    using inst by (simp add: s0 v del: data_values.simps)
  have b: "snd (sse_transform example_platform (fst (sse_feed example_platform sse_start ?lns)) []) =
     [\<lparr>sse_id = Some (utf16 ''5''), sse_event = [], sse_data = JValue 12\<rparr>]"
    using inst p u by (simp add: s0 v i del: data_values.simps)
  show ?thesis using a b by simp
qed

text \<open>
  C4. When the accumulated data lines do not parse as JSON, the blank line enqueues no
  event and resets the accumulator, and the decoder goes on with the lines that follow as
  from the reset accumulator: a stream whose lines \<open>pre\<close> lead to such an accumulator
  gives what \<open>pre\<close> gave, nothing for the blank line, and then what the following lines
  give. At the end of the stream \<^verbatim>\<open>flush\<close> drops such an accumulator as well. The decode
  failure is caught (\<open>None\<close> of \<open>decodeArraysToJson\<close>), and the patched
  stream method ends without exception on every response.
\<close>

theorem C4_malformed_json_dropped:
  assumes "data s \<noteq> []" and "decodeArraysToJson P (data s) = None"
  shows "sse_transform P s [] = (s\<lparr>event := [], data := [], retry := None\<rparr>, []) \<and>
         sse_feed P s ([] # lns) = sse_feed P (s\<lparr>event := [], data := [], retry := None\<rparr>) lns \<and>
         (fst (sse_feed P sse_start pre) = s \<longrightarrow>
            SafeSSEDecoder P (pre @ [] # lns) =
              snd (sse_feed P sse_start pre) @
              snd (sse_feed P (s\<lparr>event := [], data := [], retry := None\<rparr>) lns) @
              sse_flush P (fst (sse_feed P (s\<lparr>event := [], data := [], retry := None\<rparr>) lns))) \<and>
         sse_flush P s = [] \<and>
         (\<exists>effects. runs_stream P cb rsp = Some effects)"
proof -
  have t: "sse_transform P s [] = (s\<lparr>event := [], data := [], retry := None\<rparr>, [])"
    using assms by (simp add: sse_transform_blank enqueue_sse_cases)
  have fl: "sse_flush P s = []"
    using assms by (simp add: sse_flush_def enqueue_sse_cases)
  have f: "sse_feed P s ([] # lns) = sse_feed P (s\<lparr>event := [], data := [], retry := None\<rparr>) lns"
    by (simp add: sse_feed_Cons t)
  have r: "\<exists>effects. runs_stream P cb rsp = Some effects"
    using runs_stream_total [of rsp P cb] by blast
  show ?thesis
    using t f r fl by (auto simp: SafeSSEDecoder_eq sse_feed_append)
qed

theorem C4_malformed_json_dropped_witness:
  "SafeSSEDecoder example_platform
     [ascii ''event: foo'', ascii ''data: not-json'', [],
      ascii ''event: bar'', ascii ''data: 1'', []] =
     [\<lparr>sse_id = None, sse_event = utf16 ''bar'', sse_data = JValue 1\<rparr>] \<and>
   sse_transform example_platform
     \<lparr>event = utf16 ''foo'', data = [ascii ''not-json''], lastEventId = [], retry = None\<rparr> [] =
     (\<lparr>event = [], data = [], lastEventId = [], retry = None\<rparr>, []) \<and>
   runs_stream example_platform False
     \<lparr>content_location = None,
      body = Some [ascii ''event: foo'' @ [LF] @ ascii ''data: not-json'' @ [LF, LF]]\<rparr> = Some []"
proof -
  let ?s = "\<lparr>event = utf16 ''foo'', data = [ascii ''not-json''], lastEventId = [],
             retry = (None :: nat option)\<rparr>"
  have d: "data ?s \<noteq> []" by simp
  have p: "decodeArraysToJson example_platform (data ?s) = None" by code_simp
  have pre: "fst (sse_feed example_platform sse_start [ascii ''event: foo'', ascii ''data: not-json'']) = ?s"
    by code_simp
  have post: "sse_feed example_platform (?s\<lparr>event := [], data := [], retry := None\<rparr>)
                [ascii ''event: bar'', ascii ''data: 1'', []] =
              (\<lparr>event = [], data = [], lastEventId = [], retry = None\<rparr>,
               [\<lparr>sse_id = None, sse_event = utf16 ''bar'', sse_data = JValue 1\<rparr>])"
    by code_simp
  have out: "snd (sse_feed example_platform (sse_start :: nat sse_state)
                [ascii ''event: foo'', ascii ''data: not-json'']) = []"
    by code_simp
  have fl: "sse_flush example_platform
              \<lparr>event = [], data = [], lastEventId = [], retry = (None :: nat option)\<rparr> = []"
    by (simp add: sse_flush_def)
  have rs: "runs_stream example_platform False
     \<lparr>content_location = None,
      body = Some [ascii ''event: foo'' @ [LF] @ ascii ''data: not-json'' @ [LF, LF]]\<rparr> = Some []"
    by code_simp
  note inst = C4_malformed_json_dropped [OF d p,
      of "[ascii ''event: bar'', ascii ''data: 1'', []]"
         "[ascii ''event: foo'', ascii ''data: not-json'']"]
  have a: "SafeSSEDecoder example_platform
     ([ascii ''event: foo'', ascii ''data: not-json''] @ [] #
      [ascii ''event: bar'', ascii ''data: 1'', []]) =
     [\<lparr>sse_id = None, sse_event = utf16 ''bar'', sse_data = JValue 1\<rparr>]"
    using inst pre by (simp only: post out fl fst_conv snd_conv append_Nil append_Nil2 simp_thms)
  have b: "sse_transform example_platform ?s [] =
      (\<lparr>event = [], data = [], lastEventId = [], retry = None\<rparr>, [])"
    using inst by simp
  show ?thesis using a b rs by simp
qed



text \<open>
  C6. A blank line leaves \<^verbatim>\<open>event\<close>, \<^verbatim>\<open>data\<close> and \<^verbatim>\<open>retry\<close> at their initial values and
  \<^verbatim>\<open>lastEventId\<close> as it was. As long as no line sets a new valid id, \<^verbatim>\<open>lastEventId\<close>
  stays, and every event enqueued, by a blank line or by \<^verbatim>\<open>flush\<close>, carries it as its
  id (\<^verbatim>\<open>undefined\<close> when it is the empty string).
\<close>

theorem C6_dispatch_keeps_lastEventId:
  "event (fst (sse_transform P s [])) = [] \<and>
   data (fst (sse_transform P s [])) = [] \<and>
   retry (fst (sse_transform P s [])) = None \<and>
   lastEventId (fst (sse_transform P s [])) = lastEventId s \<and>
   (list_all (\<lambda>l. \<not> valid_id_line P l) lns \<longrightarrow>
      lastEventId (fst (sse_feed P s lns)) = lastEventId s \<and>
      (\<forall>e \<in> set (snd (sse_feed P s lns) @ sse_flush P (fst (sse_feed P s lns))).
         sse_id e = (if lastEventId s = [] then None else Some (lastEventId s))))"
proof -
  have "list_all (\<lambda>l. \<not> valid_id_line P l) lns \<Longrightarrow>
      lastEventId (fst (sse_feed P s lns)) = lastEventId s \<and>
      (\<forall>e \<in> set (snd (sse_feed P s lns) @ sse_flush P (fst (sse_feed P s lns))).
         sse_id e = (if lastEventId s = [] then None else Some (lastEventId s)))"
    using sse_feed_keeps_id [of P lns s] sse_flush_id [of _ P "fst (sse_feed P s lns)"]
    by auto
  then show ?thesis
    by (simp add: sse_transform_blank)
qed

theorem C6_dispatch_keeps_lastEventId_witness:
  "sse_feed example_platform
     \<lparr>event = utf16 ''a'', data = [ascii ''1''], lastEventId = utf16 ''7'', retry = Some 3\<rparr>
     [[], ascii ''data: 2'', ascii ''id: 8'' @ [NULL], []] =
     (\<lparr>event = [], data = [], lastEventId = utf16 ''7'', retry = None\<rparr>,
      [\<lparr>sse_id = Some (utf16 ''7''), sse_event = utf16 ''a'', sse_data = JValue 1\<rparr>,
       \<lparr>sse_id = Some (utf16 ''7''), sse_event = [], sse_data = JValue 2\<rparr>]) \<and>
   lastEventId (fst (sse_transform example_platform
     \<lparr>event = utf16 ''a'', data = [ascii ''1''], lastEventId = utf16 ''7'', retry = Some 3\<rparr> []))
     = utf16 ''7''"
proof -
  let ?s = "\<lparr>event = utf16 ''a'', data = [ascii ''1''], lastEventId = utf16 ''7'',
             retry = Some (3 :: nat)\<rparr>"
  let ?lns = "[[], ascii ''data: 2'', ascii ''id: 8'' @ [NULL], []]"
  have h: "list_all (\<lambda>l. \<not> valid_id_line example_platform l) ?lns" by code_simp
  have run: "sse_feed example_platform ?s ?lns =
     (\<lparr>event = [], data = [], lastEventId = utf16 ''7'', retry = None\<rparr>,
      [\<lparr>sse_id = Some (utf16 ''7''), sse_event = utf16 ''a'', sse_data = JValue 1\<rparr>,
       \<lparr>sse_id = Some (utf16 ''7''), sse_event = [], sse_data = JValue 2\<rparr>])"
    by code_simp
  show ?thesis
    using C6_dispatch_keeps_lastEventId [of example_platform ?s ?lns] h run by simp
qed


text \<open>
  C7, as the claim states it, fails: the stream ends with the event type \<^verbatim>\<open>foo\<close> set and
  no blank line after it, the data does not parse, and \<^verbatim>\<open>flush\<close> enqueues nothing.
\<close>

theorem C7_counterexample:
  "event (fst (sse_feed example_platform sse_start
      [ascii ''event: foo'', ascii ''data: not-json''])) = utf16 ''foo'' \<and>
   sse_flush example_platform (fst (sse_feed example_platform sse_start
      [ascii ''event: foo'', ascii ''data: not-json''])) = [] \<and>
   SafeSSEDecoder example_platform [ascii ''event: foo'', ascii ''data: not-json''] = []"
  by code_simp


text \<open>
  C7, amended. When an event type is set, \<^verbatim>\<open>flush\<close> enqueues exactly what a blank line
  would enqueue from the same accumulator: one event when the data is empty or parses as
  JSON, none when it does not parse. When no event type is set, \<^verbatim>\<open>flush\<close> enqueues
  nothing. Two events separated by one blank line, the second with an event type and
  without blank line after it, both with data that is empty or parses, give two events:
  the first from the blank line, which dispatches on any field that is set, the second
  from \<^verbatim>\<open>flush\<close> alone.
\<close>

theorem C7_flush_as_dispatch:
  fixes P :: "('v, 'n) platform" and s s1 s2 :: "'n sse_state"
  shows "(event s \<noteq> [] \<longrightarrow>
      sse_flush P s = snd (sse_transform P s []) \<and>
      (length (sse_flush P s) = 1) = (data s = [] \<or> decodeArraysToJson P (data s) \<noteq> None) \<and>
      (sse_flush P s = []) = (data s \<noteq> [] \<and> decodeArraysToJson P (data s) = None)) \<and>
   (event s = [] \<longrightarrow> sse_flush P s = []) \<and>
   ([] \<notin> set ev1 \<and> [] \<notin> set ev2 \<and>
    s1 = fst (sse_feed P sse_start ev1) \<and>
    s2 = fst (sse_feed P (s1\<lparr>event := [], data := [], retry := None\<rparr>) ev2) \<and>
    (event s1 \<noteq> [] \<or> data s1 \<noteq> [] \<or> lastEventId s1 \<noteq> [] \<or> retry s1 \<noteq> None) \<and>
    (data s1 = [] \<or> decodeArraysToJson P (data s1) \<noteq> None) \<and>
    event s2 \<noteq> [] \<and> (data s2 = [] \<or> decodeArraysToJson P (data s2) \<noteq> None) \<longrightarrow>
      (\<exists>e1 e2. snd (sse_feed P sse_start (ev1 @ [] # ev2)) = [e1] \<and>
               sse_flush P s2 = [e2] \<and>
               SafeSSEDecoder P (ev1 @ [] # ev2) = [e1, e2]))"
proof -
  have one: "event s \<noteq> [] \<longrightarrow>
      sse_flush P s = snd (sse_transform P s []) \<and>
      (length (sse_flush P s) = 1) = (data s = [] \<or> decodeArraysToJson P (data s) \<noteq> None) \<and>
      (sse_flush P s = []) = (data s \<noteq> [] \<and> decodeArraysToJson P (data s) = None)"
    for s :: "'n sse_state"
    by (auto simp: sse_flush_def sse_transform_blank enqueue_sse_cases split: option.splits)
  have none: "event s = [] \<longrightarrow> sse_flush P s = []"
    by (simp add: sse_flush_def)
  have two: "\<exists>e1 e2. snd (sse_feed P sse_start (ev1 @ [] # ev2)) = [e1] \<and>
               sse_flush P s2 = [e2] \<and>
               SafeSSEDecoder P (ev1 @ [] # ev2) = [e1, e2]"
    if nb: "[] \<notin> set ev1" "[] \<notin> set ev2"
      and s1: "s1 = fst (sse_feed P sse_start ev1)"
      and s2: "s2 = fst (sse_feed P (s1\<lparr>event := [], data := [], retry := None\<rparr>) ev2)"
      and set1: "event s1 \<noteq> [] \<or> data s1 \<noteq> [] \<or> lastEventId s1 \<noteq> [] \<or> retry s1 \<noteq> None"
      and ok1: "data s1 = [] \<or> decodeArraysToJson P (data s1) \<noteq> None"
      and ok2: "event s2 \<noteq> []" "data s2 = [] \<or> decodeArraysToJson P (data s2) \<noteq> None"
  proof -
    have "\<exists>e1. snd (sse_transform P s1 []) = [e1]"
      using set1 ok1 by (auto simp: sse_transform_blank enqueue_sse_cases split: option.splits)
    then obtain e1 where e1: "snd (sse_transform P s1 []) = [e1]" by blast
    have "length (sse_flush P s2) = 1"
      using one [of s2] ok2 by blast
    then obtain e2 where e2: "sse_flush P s2 = [e2]"
      by (auto simp: length_Suc_conv)
    have st: "fst (sse_transform P s1 []) = s1\<lparr>event := [], data := [], retry := None\<rparr>"
      using set1 by (auto simp: sse_transform_blank)
    have feed: "snd (sse_feed P sse_start (ev1 @ [] # ev2)) = [e1]"
      "fst (sse_feed P sse_start (ev1 @ [] # ev2)) = s2"
      using nb e1 st
      by (simp_all add: sse_feed_append sse_feed_Cons sse_feed_nonblank_out s1 [symmetric]
          s2 [symmetric])
    show ?thesis
      using feed e2 by (simp add: SafeSSEDecoder_eq)
  qed
  show ?thesis
    using one [of s] none two by blast
qed

theorem C7_flush_as_dispatch_witness:
  "SafeSSEDecoder example_platform
     [ascii ''data: 1'', [], ascii ''event: b'', ascii ''data: 2''] =
     [\<lparr>sse_id = None, sse_event = [], sse_data = JValue 1\<rparr>,
      \<lparr>sse_id = None, sse_event = utf16 ''b'', sse_data = JValue 2\<rparr>] \<and>
   snd (sse_feed example_platform sse_start
     [ascii ''data: 1'', [], ascii ''event: b'', ascii ''data: 2'']) =
     [\<lparr>sse_id = None, sse_event = [], sse_data = JValue 1\<rparr>] \<and>
   sse_flush example_platform
     \<lparr>event = utf16 ''b'', data = [ascii ''2''], lastEventId = [], retry = None\<rparr> =
     snd (sse_transform example_platform
     \<lparr>event = utf16 ''b'', data = [ascii ''2''], lastEventId = [], retry = None\<rparr> []) \<and>
   sse_flush example_platform
     \<lparr>event = [], data = [ascii ''2''], lastEventId = [], retry = None\<rparr> = []"
proof -
  let ?ev1 = "[ascii ''data: 1'']"
  let ?ev2 = "[ascii ''event: b'', ascii ''data: 2'']"
  let ?s1 = "\<lparr>event = [], data = [ascii ''1''], lastEventId = [],
              retry = (None :: nat option)\<rparr>"
  let ?s2 = "\<lparr>event = utf16 ''b'', data = [ascii ''2''], lastEventId = [],
              retry = (None :: nat option)\<rparr>"
  let ?s0 = "\<lparr>event = [], data = [ascii ''2''], lastEventId = [],
              retry = (None :: nat option)\<rparr>"
  have h: "[] \<notin> set ?ev1 \<and> [] \<notin> set ?ev2 \<and>
    ?s1 = fst (sse_feed example_platform sse_start ?ev1) \<and>
    ?s2 = fst (sse_feed example_platform (?s1\<lparr>event := [], data := [], retry := None\<rparr>) ?ev2) \<and>
    (event ?s1 \<noteq> [] \<or> data ?s1 \<noteq> [] \<or> lastEventId ?s1 \<noteq> [] \<or> retry ?s1 \<noteq> None) \<and>
    (data ?s1 = [] \<or> decodeArraysToJson example_platform (data ?s1) \<noteq> None) \<and>
    event ?s2 \<noteq> [] \<and> (data ?s2 = [] \<or> decodeArraysToJson example_platform (data ?s2) \<noteq> None)"
    by code_simp
  have run: "snd (sse_feed example_platform sse_start (?ev1 @ [] # ?ev2)) =
      [\<lparr>sse_id = None, sse_event = [], sse_data = JValue 1\<rparr>]"
    by code_simp
  have f2: "sse_flush example_platform ?s2 =
      [\<lparr>sse_id = None, sse_event = utf16 ''b'', sse_data = JValue 2\<rparr>]"
    by code_simp
  have e2: "event ?s2 \<noteq> []" by (simp add: utf16_def)
  have e: "event ?s0 = []" by simp
  from C7_flush_as_dispatch [of ?s0 example_platform ?ev1 ?ev2 ?s1 ?s2] h e
  obtain e1 e2 where
    r: "snd (sse_feed example_platform sse_start (?ev1 @ [] # ?ev2)) = [e1]"
      "sse_flush example_platform ?s2 = [e2]"
      "SafeSSEDecoder example_platform (?ev1 @ [] # ?ev2) = [e1, e2]"
    and z: "sse_flush example_platform ?s0 = []"
    by blast
  have q: "sse_flush example_platform ?s2 = snd (sse_transform example_platform ?s2 [])"
    using C7_flush_as_dispatch [of ?s2 example_platform ?ev1 ?ev2 ?s1 ?s2] e2 by blast
  show ?thesis
    using r z run f2 q by simp
qed


text \<open>
  C8. An \<^verbatim>\<open>id\<close> field line whose value holds a NUL byte changes nothing: \<^verbatim>\<open>lastEventId\<close>
  is what it was, and an event enqueued next, by a blank line or by \<^verbatim>\<open>flush\<close>, carries
  the earlier id (\<^verbatim>\<open>undefined\<close> when that is the empty string). An \<^verbatim>\<open>id\<close> field line
  whose value holds no NUL byte sets \<^verbatim>\<open>lastEventId\<close> to the decoded value.
\<close>

theorem C8_id_with_NUL_ignored:
  assumes "line \<noteq> []" and "split_field P line = Some (utf16 ''id'', v)"
  shows "(NULL \<in> set v \<longrightarrow>
            sse_transform P s line = (s, []) \<and>
            (\<forall>e \<in> set (snd (sse_transform P (fst (sse_transform P s line)) []) @
                       sse_flush P (fst (sse_transform P s line))).
               sse_id e = (if lastEventId s = [] then None else Some (lastEventId s)))) \<and>
         (NULL \<notin> set v \<longrightarrow>
            sse_transform P s line = (s\<lparr>lastEventId := decode P v\<rparr>, []))"
proof -
  have t: "sse_transform P s line =
      (if NULL \<in> set v then (s, []) else (s\<lparr>lastEventId := decode P v\<rparr>, []))"
    using sse_transform_id [OF assms, of s] by (simp add: indexOf_None_iff)
  show ?thesis
    using sse_transform_out_id [of _ P s "[]"] sse_flush_id [of _ P s]
    by (auto simp: t)
qed

theorem C8_id_with_NUL_ignored_witness:
  "sse_feed example_platform
     \<lparr>event = utf16 ''a'', data = [], lastEventId = utf16 ''7'', retry = None\<rparr>
     [ascii ''id: 8'' @ [NULL] @ ascii ''9'', []] =
     (\<lparr>event = [], data = [], lastEventId = utf16 ''7'', retry = None\<rparr>,
      [\<lparr>sse_id = Some (utf16 ''7''), sse_event = utf16 ''a'', sse_data = JNull\<rparr>]) \<and>
   sse_transform example_platform
     \<lparr>event = utf16 ''a'', data = [], lastEventId = utf16 ''7'', retry = None\<rparr>
     (ascii ''id: 89'') =
     (\<lparr>event = utf16 ''a'', data = [], lastEventId = utf16 ''89'', retry = None\<rparr>, [])"
proof -
  let ?s = "\<lparr>event = utf16 ''a'', data = [], lastEventId = utf16 ''7'',
             retry = (None :: nat option)\<rparr>"
  let ?bad = "ascii ''id: 8'' @ [NULL] @ ascii ''9''"
  have n1: "?bad \<noteq> []" and n2: "ascii ''id: 89'' \<noteq> []" by (simp_all add: ascii_def)
  have f1: "split_field example_platform ?bad = Some (utf16 ''id'', ascii ''8'' @ [NULL] @ ascii ''9'')"
    by code_simp
  have f2: "split_field example_platform (ascii ''id: 89'') = Some (utf16 ''id'', ascii ''89'')"
    by code_simp
  have m1: "NULL \<in> set (ascii ''8'' @ [NULL] @ ascii ''9'')" by simp
  have m2: "NULL \<notin> set (ascii ''89'')" by (simp add: ascii_def NULL_def)
  have d: "decode example_platform (ascii ''89'') = utf16 ''89''" by code_simp
  have run: "sse_feed example_platform ?s [?bad, []] =
     (\<lparr>event = [], data = [], lastEventId = utf16 ''7'', retry = None\<rparr>,
      [\<lparr>sse_id = Some (utf16 ''7''), sse_event = utf16 ''a'', sse_data = JNull\<rparr>])"
    by code_simp
  show ?thesis
    using C8_id_with_NUL_ignored [OF n1 f1, of ?s] C8_id_with_NUL_ignored [OF n2 f2, of ?s]
      m1 m2 d run
    by simp
qed


text \<open>
  C10. When the accumulated data does not parse as JSON, the blank line enqueues nothing
  and leaves the accumulator of a fresh decoder, but for \<^verbatim>\<open>lastEventId\<close>, which it keeps.
  That state is the same whatever the parser answers, so it is the state after a
  successful dispatch, and the events that follow are those of the following lines alone.
\<close>

theorem C10_failed_dispatch_resets:
  fixes P :: "('v, 'n) platform" and P' :: "('w, 'n) platform" and s :: "'n sse_state"
  assumes "data s \<noteq> []" and "decodeArraysToJson P (data s) = None"
  shows "fst (sse_transform P s []) = s\<lparr>event := [], data := [], retry := None\<rparr> \<and>
         fst (sse_transform P s []) = sse_start\<lparr>lastEventId := lastEventId s\<rparr> \<and>
         fst (sse_transform P' s []) = fst (sse_transform P s []) \<and>
         snd (sse_transform P s []) = [] \<and>
         snd (sse_feed P s ([] # lns)) =
           snd (sse_feed P (sse_start\<lparr>lastEventId := lastEventId s\<rparr>) lns)"
proof -
  have st: "fst (sse_transform Q s []) = s\<lparr>event := [], data := [], retry := None\<rparr>"
    for Q :: "('u, 'n) platform"
    using assms(1) by (simp add: sse_transform_blank)
  have fresh: "s\<lparr>event := [], data := [], retry := None\<rparr> =
      sse_start\<lparr>lastEventId := lastEventId s\<rparr>"
    by (simp add: sse_start_def)
  have out: "snd (sse_transform P s []) = []"
    using assms by (simp add: sse_transform_blank enqueue_sse_cases)
  show ?thesis
    by (simp add: st fresh [symmetric] sse_feed_Cons out)
qed

theorem C10_failed_dispatch_resets_witness:
  "sse_feed example_platform
     \<lparr>event = utf16 ''foo'', data = [ascii ''{''], lastEventId = utf16 ''7'', retry = Some 5\<rparr>
     [[], ascii ''data: 2'', []] =
     (\<lparr>event = [], data = [], lastEventId = utf16 ''7'', retry = None\<rparr>,
      [\<lparr>sse_id = Some (utf16 ''7''), sse_event = [], sse_data = JValue 2\<rparr>]) \<and>
   fst (sse_transform example_platform
     \<lparr>event = utf16 ''foo'', data = [ascii ''{''], lastEventId = utf16 ''7'', retry = Some 5\<rparr> []) =
     \<lparr>event = [], data = [], lastEventId = utf16 ''7'', retry = None\<rparr>"
proof -
  let ?s = "\<lparr>event = utf16 ''foo'', data = [ascii ''{''], lastEventId = utf16 ''7'',
             retry = Some (5 :: nat)\<rparr>"
  have d: "data ?s \<noteq> []" by simp
  have p: "decodeArraysToJson example_platform (data ?s) = None" by code_simp
  have run: "sse_feed example_platform ?s [[], ascii ''data: 2'', []] =
     (\<lparr>event = [], data = [], lastEventId = utf16 ''7'', retry = None\<rparr>,
      [\<lparr>sse_id = Some (utf16 ''7''), sse_event = [], sse_data = JValue 2\<rparr>])"
    by code_simp
  show ?thesis
    using C10_failed_dispatch_resets [OF d p, of example_platform "[]"] run by simp
qed



section \<open>The patched stream method\<close>

lemma regex_threads_runs:
  "regex_exec (utf16 ''/threads/abc/runs/xyz'') = Some (Some (utf16 ''abc''), utf16 ''xyz'')"
  by code_simp

lemma regex_runs:
  "regex_exec (utf16 ''/runs/xyz'') = Some (None, utf16 ''xyz'')"
  by code_simp


text \<open>
  C5. With a payload that has \<^verbatim>\<open>onRunCreated\<close>: for the header \<^verbatim>\<open>/threads/abc/runs/xyz\<close>
  the callback is called once, with run id \<^verbatim>\<open>xyz\<close> and thread id \<^verbatim>\<open>abc\<close>, and before
  every event yielded; for the header \<^verbatim>\<open>/runs/xyz\<close> likewise, with run id \<^verbatim>\<open>xyz\<close> and
  no thread id; and when the header is missing or the pattern does not match it, the
  callback is not called and the events are yielded alone.
\<close>

theorem C5_onRunCreated:
  "(\<exists>lns. BytesLineDecoder (case b of None \<Rightarrow> [] | Some cs \<Rightarrow> cs) = Some lns \<and>
      runs_stream P True
        \<lparr>content_location = Some (utf16 ''/threads/abc/runs/xyz''), body = b\<rparr> =
        Some (OnRunCreated \<lparr>run_id = utf16 ''xyz'', thread_id = Some (utf16 ''abc'')\<rparr> #
              map Yield (SafeSSEDecoder P lns)) \<and>
      runs_stream P True \<lparr>content_location = Some (utf16 ''/runs/xyz''), body = b\<rparr> =
        Some (OnRunCreated \<lparr>run_id = utf16 ''xyz'', thread_id = None\<rparr> #
              map Yield (SafeSSEDecoder P lns))) \<and>
   ((content_location rsp = None \<or>
     (\<exists>h. content_location rsp = Some h \<and> regex_exec h = None)) \<longrightarrow>
    (\<exists>lns. BytesLineDecoder (case body rsp of None \<Rightarrow> [] | Some cs \<Rightarrow> cs) = Some lns \<and>
       runs_stream P True rsp = Some (map Yield (SafeSSEDecoder P lns))))"
proof -
  have m1: "getRunMetadataFromResponse
      \<lparr>content_location = Some (utf16 ''/threads/abc/runs/xyz''), body = b\<rparr> =
      Some \<lparr>run_id = utf16 ''xyz'', thread_id = Some (utf16 ''abc'')\<rparr>"
    by (simp add: getRunMetadataFromResponse_def regex_threads_runs) (simp add: utf16_def)
  have m2: "getRunMetadataFromResponse
      \<lparr>content_location = Some (utf16 ''/runs/xyz''), body = b\<rparr> =
      Some \<lparr>run_id = utf16 ''xyz'', thread_id = None\<rparr>"
    by (simp add: getRunMetadataFromResponse_def regex_runs) (simp add: utf16_def)
  have m3: "getRunMetadataFromResponse rsp = None"
    if "content_location rsp = None \<or>
        (\<exists>h. content_location rsp = Some h \<and> regex_exec h = None)"
    using that by (auto simp: getRunMetadataFromResponse_def)
  have first: "\<exists>lns. BytesLineDecoder (case b of None \<Rightarrow> [] | Some cs \<Rightarrow> cs) = Some lns \<and>
      runs_stream P True
        \<lparr>content_location = Some (utf16 ''/threads/abc/runs/xyz''), body = b\<rparr> =
        Some (OnRunCreated \<lparr>run_id = utf16 ''xyz'', thread_id = Some (utf16 ''abc'')\<rparr> #
              map Yield (SafeSSEDecoder P lns)) \<and>
      runs_stream P True \<lparr>content_location = Some (utf16 ''/runs/xyz''), body = b\<rparr> =
        Some (OnRunCreated \<lparr>run_id = utf16 ''xyz'', thread_id = None\<rparr> #
              map Yield (SafeSSEDecoder P lns))"
    using runs_stream_total
        [of "\<lparr>content_location = Some (utf16 ''/threads/abc/runs/xyz''), body = b\<rparr>" P True]
      runs_stream_total [of "\<lparr>content_location = Some (utf16 ''/runs/xyz''), body = b\<rparr>" P True]
    by (auto simp: m1 m2)
  have second: "\<exists>lns. BytesLineDecoder (case body rsp of None \<Rightarrow> [] | Some cs \<Rightarrow> cs) = Some lns \<and>
       runs_stream P True rsp = Some (map Yield (SafeSSEDecoder P lns))"
    if "content_location rsp = None \<or>
        (\<exists>h. content_location rsp = Some h \<and> regex_exec h = None)"
    using runs_stream_total [of rsp P True] m3 [OF that] by auto
  show ?thesis
    using first second by blast
qed

theorem C5_onRunCreated_witness:
  "runs_stream example_platform True
     \<lparr>content_location = Some (utf16 ''/threads/abc/stream''),
      body = Some [ascii ''data: 1'' @ [LF, LF]]\<rparr> =
     Some [Yield \<lparr>sse_id = None, sse_event = [], sse_data = JValue 1\<rparr>] \<and>
   runs_stream example_platform True
     \<lparr>content_location = Some (utf16 ''/threads/abc/runs/xyz''),
      body = Some [ascii ''data: 1'' @ [LF, LF]]\<rparr> =
     Some [OnRunCreated \<lparr>run_id = utf16 ''xyz'', thread_id = Some (utf16 ''abc'')\<rparr>,
           Yield \<lparr>sse_id = None, sse_event = [], sse_data = JValue 1\<rparr>]"
proof -
  let ?rsp = "\<lparr>content_location = Some (utf16 ''/threads/abc/stream''),
               body = Some [ascii ''data: 1'' @ [LF, LF]]\<rparr>"
  have h: "content_location ?rsp = None \<or>
      (\<exists>h. content_location ?rsp = Some h \<and> regex_exec h = None)"
  proof -
    have "regex_exec (utf16 ''/threads/abc/stream'') = None" by code_simp
    then show ?thesis by simp
  qed
  have l: "BytesLineDecoder [ascii ''data: 1'' @ [LF, LF]] = Some [ascii ''data: 1'', []]"
    by code_simp
  have e: "SafeSSEDecoder example_platform [ascii ''data: 1'', []] =
      [\<lparr>sse_id = None, sse_event = [], sse_data = JValue 1\<rparr>]"
    by code_simp
  show ?thesis
    using C5_onRunCreated [of "Some [ascii ''data: 1'' @ [LF, LF]]" example_platform ?rsp] h l e
    by auto
qed


end
